theory Spec2Isabelle
  imports Main "HOL-Library.Word"
begin

section \<open>The data model of \<open>src/index.ts\<close>\<close>

text \<open>
  The engine is the exported function \<open>lyricize\<close> with its helpers \<open>processWord\<close>,
  \<open>preserveCase\<close> and \<open>capitalize\<close>. A JavaScript string is a sequence of 16-bit code
  units; a literal of the source is written \<open>js ''...''\<close>.
\<close>

type_synonym code_unit = "16 word"

type_synonym jstring = "code_unit list"

definition js :: "string \<Rightarrow> jstring" where
  "js s = map of_char s"

text \<open>
  The interface \<open>WordData\<close>. The entries of the dictionary have the declared types.
  A record that the engine returns can lack \<open>syllables\<close> and \<open>stresses\<close>, and its
  lists can hold \<open>undefined\<close>, so the record type is parametric in the types
  of the two lists: \<open>None\<close> is \<open>undefined\<close>.
\<close>

record ('s, 't) word_data =
  syllables :: 's
  hyphenated :: jstring
  stresses :: 't
  isKnown :: bool

type_synonym WordData = "(jstring list, int list) word_data"

type_synonym Output = "(jstring option list option, int option list option) word_data"

text \<open>A record of the declared type, as a returned record.\<close>

definition typed :: "WordData \<Rightarrow> Output" where
  "typed w =
     \<lparr>syllables = Some (map Some (syllables w)), hyphenated = hyphenated w,
      stresses = Some (map Some (stresses w)), isKnown = isKnown w\<rparr>"

text \<open>The record \<open>{hyphenated: h, isKnown: true}\<close>, without syllables and stresses.\<close>

definition bare :: "jstring \<Rightarrow> Output" where
  "bare h = \<lparr>syllables = None, hyphenated = h, stresses = None, isKnown = True\<rparr>"

text \<open>The only exception the engine can raise: a method call on \<open>undefined\<close>, or
  spreading it.\<close>

datatype js_error = TypeError

section \<open>The dictionary\<close>

text \<open>
  The dictionary \<open>data\<close> is parsed from \<open>dictionary.json\<close>, which is not part of the
  sources; it is a parameter of every function here: the map from the keys of the
  file to their entries. The parsed object inherits the properties of
  \<open>Object.prototype\<close>, so \<open>data[key]\<close> is the entry of an own key, the inherited value
  of one of the names below when the file has no such key, and \<open>undefined\<close> otherwise.
  Every inherited value is truthy (eleven functions and, for \<open>__proto__\<close>, the prototype
  object) and has none of the properties of an entry.
\<close>

type_synonym dictionary = "jstring \<Rightarrow> WordData option"

datatype found = Entry WordData | Inherited

definition inherited_keys :: "jstring list" where
  "inherited_keys =
     [js ''constructor'', js ''hasOwnProperty'', js ''isPrototypeOf'',
      js ''propertyIsEnumerable'', js ''toLocaleString'', js ''toString'', js ''valueOf'',
      js ''__defineGetter__'', js ''__defineSetter__'', js ''__lookupGetter__'',
      js ''__lookupSetter__'', js ''__proto__'']"

text \<open>\<open>data[key]\<close>; \<open>None\<close> is \<open>undefined\<close>.\<close>

definition data_get :: "dictionary \<Rightarrow> jstring \<Rightarrow> found option" where
  "data_get data key =
     (case data key of
        Some wordData \<Rightarrow> Some (Entry wordData)
      | None \<Rightarrow> if key \<in> set inherited_keys then Some Inherited else None)"

section \<open>Strings\<close>

text \<open>The character class \<open>[a-zA-Z]\<close>.\<close>

definition is_letter :: "code_unit \<Rightarrow> bool" where
  "is_letter c = ((0x41 \<le> c \<and> c \<le> 0x5A) \<or> (0x61 \<le> c \<and> c \<le> 0x7A))"

text \<open>The character class \<open>\s\<close> of ECMAScript: the white space and line terminator
  code points.\<close>

definition is_space :: "code_unit \<Rightarrow> bool" where
  "is_space c =
     (c \<in> set [0x0009, 0x000A, 0x000B, 0x000C, 0x000D, 0x0020, 0x00A0, 0x1680,
        0x2000, 0x2001, 0x2002, 0x2003, 0x2004, 0x2005, 0x2006, 0x2007, 0x2008, 0x2009,
        0x200A, 0x2028, 0x2029, 0x202F, 0x205F, 0x3000, 0xFEFF])"

definition hyphen :: code_unit where
  "hyphen = 0x2D"

text \<open>
  \<open>String.prototype.toLowerCase\<close> and \<open>toUpperCase\<close> are functions of the platform, not
  of the repository. On a string of ASCII code units they map the ASCII letters one by
  one and leave the rest; on any other string they are a parameter, \<open>lower_of\<close> and
  \<open>upper_of\<close> of the platform \<open>env\<close>.
\<close>

record builtins =
  lower_of :: "jstring \<Rightarrow> jstring"
  upper_of :: "jstring \<Rightarrow> jstring"

definition is_ascii :: "code_unit \<Rightarrow> bool" where
  "is_ascii c = (c \<le> 0x7F)"

definition lower_ascii :: "code_unit \<Rightarrow> code_unit" where
  "lower_ascii c = (if 0x41 \<le> c \<and> c \<le> 0x5A then c + 0x20 else c)"

definition upper_ascii :: "code_unit \<Rightarrow> code_unit" where
  "upper_ascii c = (if 0x61 \<le> c \<and> c \<le> 0x7A then c - 0x20 else c)"

definition toLowerCase :: "builtins \<Rightarrow> jstring \<Rightarrow> jstring" where
  "toLowerCase env s = (if list_all is_ascii s then map lower_ascii s else lower_of env s)"

definition toUpperCase :: "builtins \<Rightarrow> jstring \<Rightarrow> jstring" where
  "toUpperCase env s = (if list_all is_ascii s then map upper_ascii s else upper_of env s)"

text \<open>A platform for the closed examples; on the ASCII strings of the examples every
  platform gives the same.\<close>

definition ascii_builtins :: builtins where
  "ascii_builtins = \<lparr>lower_of = map lower_ascii, upper_of = map upper_ascii\<rparr>"

text \<open>\<open>str.charAt(0).toUpperCase() + str.slice(1)\<close>.\<close>

definition capitalize :: "builtins \<Rightarrow> jstring \<Rightarrow> jstring" where
  "capitalize env str = toUpperCase env (take 1 str) @ drop 1 str"

text \<open>\<open>w.endsWith(suf)\<close>.\<close>

definition endsWith :: "jstring \<Rightarrow> jstring \<Rightarrow> bool" where
  "endsWith w suf = (length suf \<le> length w \<and> drop (length w - length suf) w = suf)"

text \<open>\<open>w.slice(0, -n)\<close> for \<open>n > 0\<close>: all but the last \<open>n\<close> elements, and nothing
  when there are no more than \<open>n\<close>.\<close>

definition slice_end :: "nat \<Rightarrow> 'a list \<Rightarrow> 'a list" where
  "slice_end n w = take (length w - n) w"

text \<open>\<open>parts.join(sep)\<close>.\<close>

fun join :: "jstring \<Rightarrow> jstring list \<Rightarrow> jstring" where
  "join sep [] = []"
| "join sep [x] = x"
| "join sep (x # y # ys) = x @ sep @ join sep (y # ys)"

text \<open>\<open>s.split(c)\<close> with a one-character separator: the pieces between the
  separators, empty pieces included; the empty string gives one empty piece.\<close>

fun split_char :: "code_unit \<Rightarrow> jstring \<Rightarrow> jstring list" where
  "split_char c [] = [[]]"
| "split_char c (x # xs) =
     (if x = c then [] # split_char c xs
      else (case split_char c xs of
              [] \<Rightarrow> [[x]]
            | p # ps \<Rightarrow> (x # p) # ps))"

text \<open>\<open>lyrics.split(/\s+/)\<close>: the separator is a maximal run of white space, so a piece
  is empty only before leading or after trailing white space.\<close>

function split_ws :: "jstring \<Rightarrow> jstring list" where
  "split_ws s =
     (let tok = takeWhile (\<lambda>c. \<not> is_space c) s;
          rest = dropWhile (\<lambda>c. \<not> is_space c) s
      in if rest = [] then [tok]
         else tok # split_ws (dropWhile is_space rest))"
  by pat_completeness auto
termination
proof (relation "measure length")
  show "wf (measure length)" by simp
next
  fix s :: jstring and tok rest :: jstring
  assume r: "rest = dropWhile (\<lambda>c. \<not> is_space c) s" and ne: "rest \<noteq> []"
  from ne obtain x xs where rx: "rest = x # xs" by (cases rest) auto
  have "\<not> \<not> is_space (hd (dropWhile (\<lambda>c. \<not> is_space c) s))"
    using ne r hd_dropWhile [of "\<lambda>c. \<not> is_space c" s] by blast
  then have "is_space x" using r rx by (metis list.sel(1))
  then have "dropWhile is_space rest = dropWhile is_space xs"
    by (simp add: rx)
  then have "length (dropWhile is_space rest) \<le> length xs"
    by (simp add: length_dropWhile_le)
  moreover have "length rest \<le> length s"
    unfolding r by (rule length_dropWhile_le)
  ultimately have "length (dropWhile is_space rest) < length s"
    using rx by simp
  then show "(dropWhile is_space rest, s) \<in> measure length" by simp
qed

declare split_ws.simps [simp del]

section \<open>Case reconciliation\<close>

text \<open>\<open>preserveCase(original, hyphenated, cleanOriginal)\<close>, lines 127 to 136, for a
  string \<open>hyphenated\<close>.\<close>

definition preserveCase :: "builtins \<Rightarrow> jstring \<Rightarrow> jstring \<Rightarrow> jstring \<Rightarrow> jstring" where
  "preserveCase env original hyph cleanOriginal =
     (if toLowerCase env original = cleanOriginal then
        (let isUpper = (original = toUpperCase env original);
             isCapitalized = (original = capitalize env (toLowerCase env original))
         in if isUpper then toUpperCase env hyph
            else if isCapitalized then capitalize env hyph
            else hyph)
      else hyph)"

text \<open>
  The same function when \<open>hyphenated\<close> is \<open>undefined\<close>, as it is for an inherited value:
  \<open>hyphenated.toUpperCase()\<close> and \<open>str.charAt(0)\<close> in \<open>capitalize\<close> then raise, and
  otherwise \<open>undefined\<close> is returned (\<open>Inr ()\<close>).
\<close>

definition preserveCase_undefined :: "builtins \<Rightarrow> jstring \<Rightarrow> jstring \<Rightarrow> js_error + unit" where
  "preserveCase_undefined env original cleanOriginal =
     (if toLowerCase env original = cleanOriginal then
        (let isUpper = (original = toUpperCase env original);
             isCapitalized = (original = capitalize env (toLowerCase env original))
         in if isUpper then Inl TypeError
            else if isCapitalized then Inl TypeError
            else Inr ())
      else Inr ())"

section \<open>Resolving one word\<close>

text \<open>The table of lines 62 to 69: suffix, replacement, and the syllable the suffix
  adds (\<open>null\<close> is \<open>None\<close>).\<close>

definition suffixes :: "(jstring \<times> jstring \<times> jstring option) list" where
  "suffixes =
     [(js ''s'', [], None),
      (js ''es'', [], Some (js ''es'')),
      (js ''ed'', [], Some (js ''ed'')),
      (js ''ing'', [], Some (js ''ing'')),
      (js ''ly'', [], Some (js ''ly'')),
      (js ''d'', [], None)]"

text \<open>
  The body of \<open>if (wordData)\<close> inside the loop, lines 75 to 102, for an entry
  \<open>wordData\<close> found under the base. Two reads can miss when the entry has no syllable:
  \<open>wordData.syllables[length - 1]\<close> is then \<open>undefined\<close>. In the \<open>s\<close> branch it is
  concatenated with \<open>'s'\<close>, which gives the text \<open>undefineds\<close>; in the \<open>d\<close> branch
  \<open>.slice\<close> is called on it, which raises a TypeError.
\<close>

definition apply_suffix_entry ::
  "builtins \<Rightarrow> jstring \<Rightarrow> jstring \<Rightarrow> jstring \<Rightarrow> jstring option \<Rightarrow> WordData
     \<Rightarrow> js_error + WordData" where
  "apply_suffix_entry env original cleanWord suffix syllable wordData =
     (if suffix = js ''s'' then
        (let lastSyllable =
               (if syllables wordData = [] then js ''undefined''
                else last (syllables wordData));
             previousSyllables = butlast (syllables wordData)
         in Inr (wordData
              \<lparr>syllables := previousSyllables @ [lastSyllable @ js ''s''],
               hyphenated :=
                 preserveCase env original (hyphenated wordData @ js ''s'') cleanWord\<rparr>))
      else if suffix = js ''d'' \<and> endsWith cleanWord (js ''ed'') then
        (if syllables wordData = [] then Inl TypeError
         else
           (let lastSyllable = last (syllables wordData);
                previousSyllables = butlast (syllables wordData)
            in Inr (wordData
                 \<lparr>syllables := previousSyllables @ [slice_end 1 lastSyllable, js ''ed''],
                  hyphenated :=
                    preserveCase env original
                      (slice_end 1 (hyphenated wordData) @ js ''-ed'') cleanWord,
                  stresses := stresses wordData @ [0]\<rparr>)))
      else
        (case syllable of
           Some syl \<Rightarrow>
             (if syl \<noteq> [] then
                Inr (wordData
                  \<lparr>syllables := syllables wordData @ [syl],
                   hyphenated :=
                     preserveCase env original
                       (join (js ''-'') (syllables wordData @ [syl])) cleanWord,
                   stresses := stresses wordData @ [0]\<rparr>)
              else
                Inr (wordData
                  \<lparr>hyphenated := preserveCase env original (hyphenated wordData) cleanWord\<rparr>))
         | None \<Rightarrow>
             Inr (wordData
               \<lparr>hyphenated := preserveCase env original (hyphenated wordData) cleanWord\<rparr>)))"

text \<open>
  The same body for whatever \<open>data[base]\<close> is. On an inherited value \<open>syllables\<close>,
  \<open>hyphenated\<close> and \<open>stresses\<close> are \<open>undefined\<close>: the \<open>s\<close> branch reads
  \<open>wordData.syllables.length\<close>, the \<open>d\<close> branch calls \<open>wordData.hyphenated.slice\<close> and the
  syllable branch spreads \<open>wordData.syllables\<close>, each a TypeError; the remaining case
  keeps the three undefined and calls \<open>preserveCase\<close> on \<open>undefined\<close>.
\<close>

definition apply_suffix ::
  "builtins \<Rightarrow> jstring \<Rightarrow> jstring \<Rightarrow> jstring \<Rightarrow> jstring option \<Rightarrow> found
     \<Rightarrow> js_error + found" where
  "apply_suffix env original cleanWord suffix syllable wordData =
     (case wordData of
        Entry w \<Rightarrow>
          (case apply_suffix_entry env original cleanWord suffix syllable w of
             Inl e \<Rightarrow> Inl e
           | Inr w' \<Rightarrow> Inr (Entry w'))
      | Inherited \<Rightarrow>
          (if suffix = js ''s'' then Inl TypeError
           else if suffix = js ''d'' \<and> endsWith cleanWord (js ''ed'') then Inl TypeError
           else if syllable \<noteq> None \<and> syllable \<noteq> Some [] then Inl TypeError
           else
             (case preserveCase_undefined env original cleanWord of
                Inl e \<Rightarrow> Inl e
              | Inr u \<Rightarrow> Inr Inherited)))"

text \<open>
  The loop of lines 70 to 106 over the rest of the table. \<open>Inr None\<close>: the loop ended
  with \<open>wordData\<close> undefined; \<open>Inr (Some w)\<close>: it left through \<open>break\<close> with \<open>w\<close>;
  \<open>Inl e\<close>: the body raised \<open>e\<close>.
\<close>

fun suffix_loop ::
  "builtins \<Rightarrow> dictionary \<Rightarrow> jstring \<Rightarrow> jstring
     \<Rightarrow> (jstring \<times> jstring \<times> jstring option) list \<Rightarrow> js_error + found option" where
  "suffix_loop env data original cleanWord [] = Inr None"
| "suffix_loop env data original cleanWord ((suffix, replace, syllable) # rest) =
     (if endsWith cleanWord suffix then
        (case data_get data (slice_end (length suffix) cleanWord @ replace) of
           Some wordData \<Rightarrow>
             (case apply_suffix env original cleanWord suffix syllable wordData of
                Inl e \<Rightarrow> Inl e
              | Inr w \<Rightarrow> Inr (Some w))
         | None \<Rightarrow> suffix_loop env data original cleanWord rest)
      else suffix_loop env data original cleanWord rest)"

text \<open>
  \<open>processWord(original, prefix, suffix)\<close>, lines 53 to 124. When \<open>wordData\<close> is an
  inherited value, its spread copies nothing and \<open>wordData.hyphenated\<close> is \<open>undefined\<close>:
  \<open>preserveCase\<close> raises or returns \<open>undefined\<close>, which the concatenation with prefix
  and suffix turns into the text \<open>undefined\<close>.
\<close>

definition processWord ::
  "builtins \<Rightarrow> dictionary \<Rightarrow> jstring \<Rightarrow> jstring \<Rightarrow> jstring \<Rightarrow> js_error + Output" where
  "processWord env data original prefix suffix =
     (let cleanWord = toLowerCase env original
      in if cleanWord = [] then
           Inr (typed \<lparr>syllables = [prefix @ original @ suffix],
                       hyphenated = prefix @ original @ suffix,
                       stresses = [0], isKnown = False\<rparr>)
         else
           (case (case data_get data cleanWord of
                    Some w \<Rightarrow> Inr (Some w)
                  | None \<Rightarrow> suffix_loop env data original cleanWord suffixes) of
              Inl e \<Rightarrow> Inl e
            | Inr (Some (Entry wordData)) \<Rightarrow>
                Inr (typed (wordData
                  \<lparr>hyphenated :=
                     prefix @ preserveCase env original (hyphenated wordData) cleanWord @ suffix,
                   isKnown := True\<rparr>))
            | Inr (Some Inherited) \<Rightarrow>
                (case preserveCase_undefined env original cleanWord of
                   Inl e \<Rightarrow> Inl e
                 | Inr u \<Rightarrow> Inr (bare (prefix @ js ''undefined'' @ suffix)))
            | Inr None \<Rightarrow>
                Inr (typed \<lparr>syllables = [original],
                            hyphenated = prefix @ original @ suffix,
                            stresses = [0], isKnown = False\<rparr>)))"

section \<open>Resolving a text\<close>

text \<open>\<open>Array.prototype.map\<close> with a callback that may raise: the elements are visited
  from left to right and the first exception ends the call.\<close>

fun try_map :: "('a \<Rightarrow> js_error + 'b) \<Rightarrow> 'a list \<Rightarrow> js_error + 'b list" where
  "try_map f [] = Inr []"
| "try_map f (x # xs) =
     (case f x of
        Inl e \<Rightarrow> Inl e
      | Inr y \<Rightarrow> (case try_map f xs of Inl e \<Rightarrow> Inl e | Inr ys \<Rightarrow> Inr (y # ys)))"

text \<open>What \<open>flatMap\<close> appends for one callback result: the elements of an array, and
  the value itself when it is \<open>undefined\<close>.\<close>

definition flattened :: "'a option list option \<Rightarrow> 'a option list" where
  "flattened v = (case v of None \<Rightarrow> [None] | Some xs \<Rightarrow> xs)"

text \<open>The three values computed at lines 26 to 28 from a token.\<close>

definition token_prefix :: "jstring \<Rightarrow> jstring" where
  "token_prefix originalWord = takeWhile (\<lambda>c. \<not> is_letter c) originalWord"

definition token_suffix :: "jstring \<Rightarrow> jstring" where
  "token_suffix originalWord = rev (takeWhile (\<lambda>c. \<not> is_letter c) (rev originalWord))"

definition token_core :: "jstring \<Rightarrow> jstring" where
  "token_core originalWord = filter (\<lambda>c. is_letter c \<or> c = hyphen) originalWord"

text \<open>\<open>cleanWord.split('-').filter(part => part)\<close>, line 33.\<close>

definition hyphen_parts :: "jstring \<Rightarrow> jstring list" where
  "hyphen_parts cleanWord = filter (\<lambda>part. part \<noteq> []) (split_char hyphen cleanWord)"

text \<open>The callback of \<open>map\<close> in \<open>lyricize\<close>, lines 22 to 49, on one token.\<close>

definition lyricize_word :: "builtins \<Rightarrow> dictionary \<Rightarrow> jstring \<Rightarrow> js_error + Output" where
  "lyricize_word env data originalWord =
     (if originalWord = [] then
        Inr (typed \<lparr>syllables = [], hyphenated = [], stresses = [], isKnown = False\<rparr>)
      else
        (let prefix = token_prefix originalWord;
             suffix = token_suffix originalWord;
             cleanWord = token_core originalWord
         in if cleanWord = [] then
              Inr (typed \<lparr>syllables = [originalWord], hyphenated = originalWord,
                          stresses = [0], isKnown = False\<rparr>)
            else if hyphen \<in> set cleanWord then
              (case try_map (\<lambda>part. processWord env data part [] []) (hyphen_parts cleanWord) of
                 Inl e \<Rightarrow> Inl e
               | Inr partResults \<Rightarrow>
                   Inr \<lparr>syllables = Some (concat (map (\<lambda>res. flattened (syllables res)) partResults)),
                        hyphenated =
                          prefix
                          @ preserveCase env originalWord
                              (join (js ''-'') (map hyphenated partResults)) cleanWord
                          @ suffix,
                        stresses = Some (concat (map (\<lambda>res. flattened (stresses res)) partResults)),
                        isKnown = list_all isKnown partResults\<rparr>)
            else processWord env data cleanWord prefix suffix))"

text \<open>\<open>lyricize(lyrics)\<close>, lines 21 to 50.\<close>

definition lyricize :: "builtins \<Rightarrow> dictionary \<Rightarrow> jstring \<Rightarrow> js_error + Output list" where
  "lyricize env data lyrics = try_map (lyricize_word env data) (split_ws lyrics)"

section \<open>Predicates on records and dictionaries\<close>




text \<open>The dictionary has the headword constructor, so that the inherited property of
  this name is never read.\<close>

definition own_constructor :: "dictionary \<Rightarrow> bool" where
  "own_constructor d = (d (js ''constructor'') \<noteq> None)"


text \<open>A string of the letters a to z, as every key is that the engine looks up for a
  string of letters.\<close>

definition is_lower :: "code_unit \<Rightarrow> bool" where
  "is_lower c = (0x61 \<le> c \<and> c \<le> 0x7A)"

definition lower_word :: "jstring \<Rightarrow> bool" where
  "lower_word s = list_all is_lower s"

text \<open>A row of the suffix table whose suffix ends the lower-case word \<open>cw\<close> and whose
  base is a headword of the dictionary.\<close>

definition suffix_hits :: "dictionary \<Rightarrow> jstring \<Rightarrow> jstring \<times> jstring \<times> jstring option \<Rightarrow> bool" where
  "suffix_hits d cw row =
     (case row of (sf, rp, sy) \<Rightarrow> endsWith cw sf \<and> d (slice_end (length sf) cw @ rp) \<noteq> None)"

text \<open>A row of the table on which the loop stops: the suffix ends the word and
  \<open>data[base]\<close> is truthy.\<close>

definition suffix_stops :: "dictionary \<Rightarrow> jstring \<Rightarrow> jstring \<times> jstring \<times> jstring option \<Rightarrow> bool" where
  "suffix_stops d cw row =
     (case row of (sf, rp, sy) \<Rightarrow>
        endsWith cw sf \<and> data_get d (slice_end (length sf) cw @ rp) \<noteq> None)"


section \<open>Dictionaries for the examples\<close>

text \<open>
  The entries that the examples of the repository's test suite presuppose, in the form
  the dictionary file stores them (citation form, lower case), and the two headwords
  do and doe, on which two rows of the suffix table compete for the word does.
\<close>

definition entry :: "jstring list \<Rightarrow> int list \<Rightarrow> WordData" where
  "entry syls strs =
     \<lparr>syllables = syls, hyphenated = join (js ''-'') syls, stresses = strs, isKnown = True\<rparr>"

definition sample_entries :: "(jstring \<times> WordData) list" where
  "sample_entries =
     [(js ''hello'', entry [js ''hel'', js ''lo''] [0, 2]),
      (js ''song'', entry [js ''song''] [0]),
      (js ''translate'', entry [js ''trans'', js ''late''] [0, 0]),
      (js ''life'', entry [js ''life''] [0]),
      (js ''renew'', entry [js ''re'', js ''new''] [0, 2]),
      (js ''pre'', entry [js ''pre''] [0]),
      (js ''post'', entry [js ''post''] [0]),
      (js ''do'', entry [js ''do''] [0]),
      (js ''doe'', entry [js ''doe''] [0])]"

definition sample_dictionary :: dictionary where
  "sample_dictionary = map_of sample_entries"





section \<open>Mapping a callback that may raise\<close>

lemma try_map_Inr_iff: "try_map f xs = Inr ys \<longleftrightarrow> map f xs = map Inr ys"
proof (induction xs arbitrary: ys)
  case Nil
  show ?case by auto
next
  case (Cons x xs)
  show ?case
  proof (cases "f x")
    case (Inl e)
    then show ?thesis by (cases ys) auto
  next
    case (Inr y)
    show ?thesis
    proof (cases "try_map f xs")
      case (Inl e)
      with Cons [of "tl ys"] Inr show ?thesis by (cases ys) auto
    next
      case r: (Inr zs)
      with Cons [of zs] have m: "map f xs = map Inr zs" by simp
      show ?thesis
      proof (cases ys)
        case Nil
        with Inr r show ?thesis by simp
      next
        case (Cons y' ys')
        with Inr r m show ?thesis by (auto simp: inj_map_eq_map)
      qed
    qed
  qed
qed

lemma try_map_Inl: "try_map f xs = Inl e \<Longrightarrow> \<exists>x\<in>set xs. f x = Inl e"
  by (induction xs) (auto split: sum.splits)

lemma try_map_total:
  "(\<And>x. x \<in> set xs \<Longrightarrow> \<exists>y. f x = Inr y) \<Longrightarrow> \<exists>ys. try_map f xs = Inr ys"
proof (induction xs)
  case Nil
  show ?case by simp
next
  case (Cons x xs)
  from Cons.prems obtain y where y: "f x = Inr y" by auto
  from Cons obtain ys where "try_map f xs = Inr ys" by auto
  with y show ?case by simp
qed

lemma try_map_elems:
  "try_map f xs = Inr ys \<Longrightarrow> y \<in> set ys \<Longrightarrow> \<exists>x\<in>set xs. f x = Inr y"
  by (induction xs arbitrary: ys) (auto split: sum.splits)

lemma try_map_nth:
  assumes "try_map f xs = Inr ys"
  shows "length ys = length xs \<and> (\<forall>i<length xs. f (xs ! i) = Inr (ys ! i))"
proof -
  from assms have m: "map f xs = map Inr ys" by (simp add: try_map_Inr_iff)
  then have l: "length ys = length xs" by (metis length_map)
  moreover have "\<forall>i<length xs. f (xs ! i) = Inr (ys ! i)"
  proof (intro allI impI)
    fix i assume "i < length xs"
    then show "f (xs ! i) = Inr (ys ! i)"
      using m l by (metis nth_map)
  qed
  ultimately show ?thesis by simp
qed


section \<open>Letters, lower case and the keys that are read\<close>

lemma js_hyphen: "js ''-'' = [hyphen]"
  by (simp add: js_def hyphen_def)







lemma toUpperCase_Nil: "toUpperCase env [] = []"
  by (simp add: toUpperCase_def)

lemma capitalize_Nil: "capitalize env [] = []"
  by (simp add: capitalize_def toUpperCase_Nil)

lemma lower_word_slice_end: "lower_word s \<Longrightarrow> lower_word (slice_end n s)"
  by (auto simp: lower_word_def slice_end_def list_all_iff dest: in_set_takeD)

lemma inherited_lower:
  assumes "lower_word k" and "k \<in> set inherited_keys"
  shows "k = js ''constructor''"
proof -
  have "list_all (\<lambda>k. lower_word k \<longrightarrow> k = js ''constructor'') inherited_keys"
    by code_simp
  with assms show ?thesis by (simp add: list_all_iff)
qed

lemma data_get_own:
  assumes "own_constructor d" and "lower_word k"
  shows "data_get d k = map_option Entry (d k)"
proof (cases "d k")
  case (Some e)
  then show ?thesis by (simp add: data_get_def)
next
  case None
  with assms(1) have "k \<noteq> js ''constructor''" by (auto simp: own_constructor_def)
  with assms(2) have "k \<notin> set inherited_keys" using inherited_lower by blast
  with None show ?thesis by (simp add: data_get_def)
qed


lemma typed_not_bare: "typed w \<noteq> bare h"
proof
  assume "typed w = bare h"
  then have "syllables (typed w) = syllables (bare h)" by simp
  then show False by (simp add: typed_def bare_def)
qed


section \<open>The suffix loop\<close>

lemma suffix_loop_skip:
  "\<forall>x\<in>set before. \<not> suffix_stops d cw x \<Longrightarrow>
     suffix_loop env d original cw (before @ rest) = suffix_loop env d original cw rest"
proof (induction before)
  case Nil
  show ?case by simp
next
  case (Cons x before)
  obtain sf rp sy where x: "x = (sf, rp, sy)" by (cases x) auto
  from Cons.prems have "\<not> suffix_stops d cw (sf, rp, sy)" by (simp add: x)
  then have "\<not> endsWith cw sf \<or> data_get d (slice_end (length sf) cw @ rp) = None"
    by (simp add: suffix_stops_def)
  with Cons x show ?case by auto
qed

lemma suffix_loop_stop:
  assumes "endsWith cw sf" and "data_get d (slice_end (length sf) cw @ rp) = Some v"
  shows "suffix_loop env d original cw ((sf, rp, sy) # after)
         = (case apply_suffix env original cw sf sy v of
              Inl err \<Rightarrow> Inl err
            | Inr w \<Rightarrow> Inr (Some w))"
  using assms by simp

lemma suffix_loop_no_stop:
  assumes "\<not> list_ex (suffix_stops d cw) xs"
  shows "suffix_loop env d original cw xs = Inr None"
proof -
  from assms have "\<forall>x\<in>set xs. \<not> suffix_stops d cw x" by (simp add: list_ex_iff)
  then have "suffix_loop env d original cw (xs @ []) = suffix_loop env d original cw []"
    by (rule suffix_loop_skip)
  then show ?thesis by simp
qed


lemma stops_iff_hits:
  assumes "own_constructor d" and "lower_word cw" and "fst (snd row) = []"
  shows "suffix_stops d cw row = suffix_hits d cw row"
proof -
  obtain sf rp sy where row: "row = (sf, rp, sy)" by (cases row) auto
  with assms(3) have rp: "rp = []" by simp
  have "lower_word (slice_end (length sf) cw)"
    using assms(2) by (rule lower_word_slice_end)
  then have "data_get d (slice_end (length sf) cw) = map_option Entry (d (slice_end (length sf) cw))"
    using assms(1) by (intro data_get_own)
  then show ?thesis by (simp add: suffix_stops_def suffix_hits_def row rp)
qed




section \<open>No exception and one stress per syllable, entry by entry\<close>






section \<open>Splitting at hyphens\<close>

lemma split_char_not_Nil: "split_char c s \<noteq> []"
  by (induction s) (auto split: list.splits)

lemma join_Cons_Cons: "join sep ((x # p) # ps) = x # join sep (p # ps)"
  by (cases ps) simp_all

lemma join_split_char: "join [c] (split_char c s) = s"
proof (induction s)
  case Nil
  show ?case by simp
next
  case (Cons x xs)
  obtain p ps where sp: "split_char c xs = p # ps"
    using split_char_not_Nil [of c xs] by (cases "split_char c xs") auto
  show ?case
  proof (cases "x = c")
    case True
    with Cons sp show ?thesis by simp
  next
    case False
    with Cons sp show ?thesis by (simp add: join_Cons_Cons)
  qed
qed

lemma split_char_no_separator: "p \<in> set (split_char c s) \<Longrightarrow> c \<notin> set p"
proof (induction s arbitrary: p)
  case Nil
  then show ?case by simp
next
  case (Cons x xs)
  obtain q qs where sp: "split_char c xs = q # qs"
    using split_char_not_Nil [of c xs] by (cases "split_char c xs") auto
  show ?case
  proof (cases "x = c")
    case True
    with Cons show ?thesis by auto
  next
    case False
    with Cons.prems sp have "p = x # q \<or> p \<in> set qs" by simp
    then show ?thesis
    proof
      assume "p = x # q"
      moreover have "c \<notin> set q" using Cons.IH [of q] sp by simp
      ultimately show ?thesis using False by auto
    next
      assume "p \<in> set qs"
      then show ?thesis using Cons.IH [of p] sp by simp
    qed
  qed
qed

lemma concat_split_char: "concat (split_char c s) = filter (\<lambda>x. x \<noteq> c) s"
proof (induction s)
  case Nil
  show ?case by simp
next
  case (Cons x xs)
  obtain q qs where sp: "split_char c xs = q # qs"
    using split_char_not_Nil [of c xs] by (cases "split_char c xs") auto
  with Cons show ?case by (cases "x = c") simp_all
qed

lemma concat_filter_nonempty: "concat (filter (\<lambda>p. p \<noteq> []) xs) = concat xs"
  by (induction xs) simp_all

lemma hyphen_parts_spec:
  "(\<forall>part\<in>set (hyphen_parts c). part \<noteq> [] \<and> hyphen \<notin> set part)
   \<and> concat (hyphen_parts c) = filter (\<lambda>x. x \<noteq> hyphen) c"
proof
  show "\<forall>part\<in>set (hyphen_parts c). part \<noteq> [] \<and> hyphen \<notin> set part"
    by (auto simp: hyphen_parts_def dest: split_char_no_separator)
next
  show "concat (hyphen_parts c) = filter (\<lambda>x. x \<noteq> hyphen) c"
    by (simp add: hyphen_parts_def concat_filter_nonempty concat_split_char)
qed




section \<open>Records of the declared type\<close>






section \<open>The dictionaries of the examples\<close>






lemma sample_dictionary_no_constructor: "\<not> own_constructor sample_dictionary"
  by code_simp



section \<open>Dictionary hits\<close>




section \<open>The reconstruction of each row\<close>









section \<open>Tokens without letters\<close>

lemma token_prefix_no_letter: "\<forall>c\<in>set tok. \<not> is_letter c \<Longrightarrow> token_prefix tok = tok"
  by (simp add: token_prefix_def)

lemma token_suffix_no_letter:
  assumes "\<forall>c\<in>set tok. \<not> is_letter c"
  shows "token_suffix tok = tok"
proof -
  from assms have "takeWhile (\<lambda>c. \<not> is_letter c) (rev tok) = rev tok"
    by (simp add: takeWhile_eq_all_conv)
  then show ?thesis unfolding token_suffix_def by (simp only: rev_rev_ident)
qed

lemma split_char_all_separators:
  "\<forall>x\<in>set s. x = c \<Longrightarrow> split_char c s = replicate (Suc (length s)) []"
  by (induction s) auto

lemma hyphen_parts_no_letter:
  assumes "\<forall>c\<in>set tok. \<not> is_letter c"
  shows "hyphen_parts (token_core tok) = []"
proof -
  have "\<forall>x\<in>set (token_core tok). x = hyphen"
    using assms by (auto simp: token_core_def)
  then have "split_char hyphen (token_core tok) = replicate (Suc (length (token_core tok))) []"
    by (rule split_char_all_separators)
  then show ?thesis by (simp add: hyphen_parts_def)
qed

lemma preserveCase_Nil: "preserveCase env original [] c = []"
  by (simp add: preserveCase_def toUpperCase_Nil capitalize_Nil Let_def)

section \<open>Prefix, suffix and decoration\<close>

lemma processWord_wrap:
  assumes "original \<noteq> []" and "processWord env d original p s = Inr r"
  shows "\<exists>r0. processWord env d original [] [] = Inr r0
              \<and> hyphenated r = p @ hyphenated r0 @ s"
proof (cases "toLowerCase env original = []")
  case True
  with assms show ?thesis by (auto simp: processWord_def typed_def)
next
  case False
  show ?thesis
  proof (cases "case data_get d (toLowerCase env original) of
                    Some w \<Rightarrow> Inr (Some w)
                  | None \<Rightarrow> suffix_loop env d original (toLowerCase env original) suffixes")
    case (Inl e)
    with False assms show ?thesis by (simp add: processWord_def Let_def)
  next
    case (Inr v)
    show ?thesis
    proof (cases v)
      case None
      with Inr False assms show ?thesis by (auto simp: processWord_def Let_def typed_def)
    next
      case (Some fd)
      show ?thesis
      proof (cases fd)
        case (Entry w)
        with Some Inr False assms show ?thesis
          by (auto simp: processWord_def Let_def typed_def)
      next
        case Inherited
        with Some Inr False assms show ?thesis
          by (auto simp: processWord_def Let_def bare_def split: sum.splits)
      qed
    qed
  qed
qed

lemma token_prefix_maximal:
  "(\<forall>c\<in>set (token_prefix tok). \<not> is_letter c)
   \<and> (\<exists>rest. tok = token_prefix tok @ rest \<and> (rest = [] \<or> is_letter (hd rest)))"
proof
  show "\<forall>c\<in>set (token_prefix tok). \<not> is_letter c"
    unfolding token_prefix_def by (auto dest: set_takeWhileD)
next
  let ?rest = "dropWhile (\<lambda>c. \<not> is_letter c) tok"
  have "tok = token_prefix tok @ ?rest"
    by (simp add: token_prefix_def)
  moreover have "?rest = [] \<or> is_letter (hd ?rest)"
    using hd_dropWhile [of "\<lambda>c. \<not> is_letter c" tok] by blast
  ultimately show "\<exists>rest. tok = token_prefix tok @ rest \<and> (rest = [] \<or> is_letter (hd rest))"
    by blast
qed

lemma token_suffix_maximal:
  "(\<forall>c\<in>set (token_suffix tok). \<not> is_letter c)
   \<and> (\<exists>front. tok = front @ token_suffix tok \<and> (front = [] \<or> is_letter (last front)))"
proof
  show "\<forall>c\<in>set (token_suffix tok). \<not> is_letter c"
    unfolding token_suffix_def by (auto dest: set_takeWhileD)
next
  let ?d = "dropWhile (\<lambda>c. \<not> is_letter c) (rev tok)"
  have "rev tok = takeWhile (\<lambda>c. \<not> is_letter c) (rev tok) @ ?d" by simp
  then have "rev (rev tok) = rev (takeWhile (\<lambda>c. \<not> is_letter c) (rev tok) @ ?d)"
    by (rule arg_cong)
  then have "tok = rev ?d @ token_suffix tok"
    by (simp only: rev_rev_ident rev_append token_suffix_def)
  moreover have "rev ?d = [] \<or> is_letter (last (rev ?d))"
    using hd_dropWhile [of "\<lambda>c. \<not> is_letter c" "rev tok"] by (auto simp: last_rev)
  ultimately show "\<exists>front. tok = front @ token_suffix tok \<and> (front = [] \<or> is_letter (last front))"
    by blast
qed

section \<open>Case reconciliation of the examples\<close>

lemma data_get_entry: "d k = Some e \<Longrightarrow> data_get d k = Some (Entry e)"
  by (simp add: data_get_def)

lemma hello_three_cases:
  "lyricize env sample_dictionary (js ''HELLO Hello hello'')
     = Inr [typed \<lparr>syllables = [js ''hel'', js ''lo''], hyphenated = js ''HEL-LO'',
                   stresses = [0, 2], isKnown = True\<rparr>,
            typed \<lparr>syllables = [js ''hel'', js ''lo''], hyphenated = js ''Hel-lo'',
                   stresses = [0, 2], isKnown = True\<rparr>,
            typed \<lparr>syllables = [js ''hel'', js ''lo''], hyphenated = js ''hel-lo'',
                   stresses = [0, 2], isKnown = True\<rparr>]"
  by code_simp

section \<open>Runs on the example dictionaries, on any platform\<close>








section \<open>Splitting at white space\<close>

lemma split_ws_last:
  "dropWhile (\<lambda>c. \<not> is_space c) s = [] \<Longrightarrow> split_ws s = [s]"
proof -
  assume a: "dropWhile (\<lambda>c. \<not> is_space c) s = []"
  have "takeWhile (\<lambda>c. \<not> is_space c) s @ dropWhile (\<lambda>c. \<not> is_space c) s = s"
    by (rule takeWhile_dropWhile_id)
  with a have t: "takeWhile (\<lambda>c. \<not> is_space c) s = s" by simp
  have "split_ws s =
     (let tok = takeWhile (\<lambda>c. \<not> is_space c) s;
          rest = dropWhile (\<lambda>c. \<not> is_space c) s
      in if rest = [] then [tok]
         else tok # split_ws (dropWhile is_space rest))"
    by (rule split_ws.simps)
  with a t show ?thesis by (simp only: Let_def simp_thms if_True)
qed

lemma split_ws_step:
  assumes "dropWhile (\<lambda>c. \<not> is_space c) s \<noteq> []"
  shows "split_ws s = takeWhile (\<lambda>c. \<not> is_space c) s
                  # split_ws (dropWhile is_space (dropWhile (\<lambda>c. \<not> is_space c) s))"
proof -
  have "split_ws s =
     (let tok = takeWhile (\<lambda>c. \<not> is_space c) s;
          rest = dropWhile (\<lambda>c. \<not> is_space c) s
      in if rest = [] then [tok]
         else tok # split_ws (dropWhile is_space rest))"
    by (rule split_ws.simps)
  with assms show ?thesis by (simp only: Let_def simp_thms if_False)
qed

lemma split_ws_not_Nil: "split_ws s \<noteq> []"
  by (cases "dropWhile (\<lambda>c. \<not> is_space c) s = []") (simp_all add: split_ws_last split_ws_step)

lemma split_ws_no_space: "t \<in> set (split_ws s) \<Longrightarrow> c \<in> set t \<Longrightarrow> \<not> is_space c"
proof (induction s arbitrary: t rule: split_ws.induct)
  case (1 s)
  let ?rest = "dropWhile (\<lambda>c. \<not> is_space c) s"
  show ?case
  proof (cases "?rest = []")
    case True
    then have "split_ws s = [s]" by (rule split_ws_last)
    with "1.prems" have "c \<in> set s" by simp
    moreover from True have "\<forall>x\<in>set s. \<not> is_space x"
      by (simp add: dropWhile_eq_Nil_conv)
    ultimately show ?thesis by blast
  next
    case False
    then have sp: "split_ws s = takeWhile (\<lambda>c. \<not> is_space c) s
                  # split_ws (dropWhile is_space ?rest)" by (rule split_ws_step)
    with "1.prems"(1) have "t = takeWhile (\<lambda>c. \<not> is_space c) s
        \<or> t \<in> set (split_ws (dropWhile is_space ?rest))" by simp
    then show ?thesis
    proof
      assume "t = takeWhile (\<lambda>c. \<not> is_space c) s"
      with "1.prems"(2) show ?thesis by (auto dest: set_takeWhileD)
    next
      assume "t \<in> set (split_ws (dropWhile is_space ?rest))"
      with "1.IH" [OF refl refl False] "1.prems"(2) show ?thesis by blast
    qed
  qed
qed

lemma filter_dropWhile_neg: "filter (\<lambda>c. \<not> Q c) (dropWhile Q xs) = filter (\<lambda>c. \<not> Q c) xs"
  by (induction xs) simp_all

lemma filter_takeWhile_same: "filter P (takeWhile P xs) = takeWhile P xs"
  by (induction xs) simp_all

lemma concat_split_ws: "concat (split_ws s) = filter (\<lambda>c. \<not> is_space c) s"
proof (induction s rule: split_ws.induct)
  case (1 s)
  let ?P = "\<lambda>c. \<not> is_space c"
  let ?rest = "dropWhile ?P s"
  have s: "filter ?P s = takeWhile ?P s @ filter ?P ?rest"
  proof -
    have "filter ?P s = filter ?P (takeWhile ?P s @ ?rest)" by simp
    also have "\<dots> = filter ?P (takeWhile ?P s) @ filter ?P ?rest" by (rule filter_append)
    finally show ?thesis by (simp only: filter_takeWhile_same)
  qed
  show ?case
  proof (cases "?rest = []")
    case True
    then have "split_ws s = [s]" by (rule split_ws_last)
    moreover from True have "filter ?P s = s"
      by (simp add: dropWhile_eq_Nil_conv)
    ultimately show ?thesis by simp
  next
    case False
    then have sp: "split_ws s = takeWhile ?P s # split_ws (dropWhile is_space ?rest)"
      by (rule split_ws_step)
    have "concat (split_ws (dropWhile is_space ?rest)) = filter ?P (dropWhile is_space ?rest)"
      by (rule "1.IH" [OF refl refl False])
    also have "\<dots> = filter ?P ?rest" by (rule filter_dropWhile_neg)
    finally show ?thesis using sp s by simp
  qed
qed

lemma split_ws_first_nonempty:
  assumes "s \<noteq> []" and "\<not> is_space (hd s)"
  shows "split_ws s ! 0 \<noteq> []"
proof -
  from assms obtain x xs where s: "s = x # xs" and x: "\<not> is_space x" by (cases s) auto
  then have t: "takeWhile (\<lambda>c. \<not> is_space c) s \<noteq> []" by simp
  show ?thesis
  proof (cases "dropWhile (\<lambda>c. \<not> is_space c) s = []")
    case True
    then show ?thesis using assms(1) by (simp add: split_ws_last)
  next
    case False
    then show ?thesis using t by (simp add: split_ws_step)
  qed
qed

lemma split_ws_middle_nonempty:
  "0 < i \<Longrightarrow> Suc i < length (split_ws s) \<Longrightarrow> split_ws s ! i \<noteq> []"
proof (induction s arbitrary: i rule: split_ws.induct)
  case (1 s)
  define rest where "rest = dropWhile (\<lambda>c. \<not> is_space c) s"
  define s' where "s' = dropWhile is_space rest"
  define tok where "tok = takeWhile (\<lambda>c. \<not> is_space c) s"
  show ?case
  proof (cases "rest = []")
    case True
    then have "split_ws s = [s]" unfolding rest_def by (rule split_ws_last)
    with "1.prems" show ?thesis by simp
  next
    case False
    then have sp: "split_ws s = tok # split_ws s'"
      unfolding rest_def s'_def tok_def by (rule split_ws_step)
    from "1.prems"(1) obtain j where i: "i = Suc j" by (cases i) auto
    from "1.prems"(2) have len: "Suc j < length (split_ws s')"
      unfolding sp i by simp
    have nth: "split_ws s ! i = split_ws s' ! j"
      unfolding sp i by (rule nth_Cons_Suc)
    show ?thesis
    proof (cases "j = 0")
      case True
      have ne: "s' \<noteq> []"
      proof
        assume "s' = []"
        then have "dropWhile (\<lambda>c. \<not> is_space c) s' = []" by simp
        then have "split_ws s' = [s']" by (rule split_ws_last)
        with len show False by simp
      qed
      then have "\<not> is_space (hd s')"
        unfolding s'_def using hd_dropWhile [of is_space rest] by blast
      with ne have "split_ws s' ! 0 \<noteq> []" by (rule split_ws_first_nonempty)
      with nth True show ?thesis by simp
    next
      case False
      then have j: "0 < j" by simp
      have "split_ws s' ! j \<noteq> []"
        unfolding s'_def rest_def
        by (rule "1.IH" [OF refl refl _ j]) (use False len rest_def s'_def \<open>rest \<noteq> []\<close> in simp_all)
      with nth show ?thesis by simp
    qed
  qed
qed

lemma split_ws_leading:
  assumes "s \<noteq> []" and "is_space (hd s)"
  shows "hd (split_ws s) = []"
proof -
  from assms obtain x xs where s: "s = x # xs" and x: "is_space x" by (cases s) auto
  then have t: "takeWhile (\<lambda>c. \<not> is_space c) s = []" by simp
  from s x have "dropWhile (\<lambda>c. \<not> is_space c) s \<noteq> []" by simp
  then have "split_ws s = takeWhile (\<lambda>c. \<not> is_space c) s
      # split_ws (dropWhile is_space (dropWhile (\<lambda>c. \<not> is_space c) s))"
    by (rule split_ws_step)
  then have "hd (split_ws s) = takeWhile (\<lambda>c. \<not> is_space c) s"
    by (simp only: list.sel)
  with t show ?thesis by (simp only:)
qed

lemma split_ws_trailing:
  "s \<noteq> [] \<Longrightarrow> is_space (last s) \<Longrightarrow> last (split_ws s) = []"
proof (induction s rule: split_ws.induct)
  case (1 s)
  define rest where "rest = dropWhile (\<lambda>c. \<not> is_space c) s"
  define s' where "s' = dropWhile is_space rest"
  define tok where "tok = takeWhile (\<lambda>c. \<not> is_space c) s"
  from "1.prems" have "last s \<in> set s" by simp
  with "1.prems"(2) have ne: "rest \<noteq> []"
    unfolding rest_def by (auto simp: dropWhile_eq_Nil_conv)
  then have sp: "split_ws s = tok # split_ws s'"
    unfolding rest_def s'_def tok_def by (rule split_ws_step)
  have l: "last (split_ws s) = last (split_ws s')"
    unfolding sp using split_ws_not_Nil [of s'] by simp
  show ?case
  proof (cases "s' = []")
    case True
    then have "dropWhile (\<lambda>c. \<not> is_space c) s' = []" by simp
    then have "split_ws s' = [s']" by (rule split_ws_last)
    with True l show ?thesis by simp
  next
    case False
    have "s = tok @ rest" unfolding tok_def rest_def by simp
    moreover have "rest = takeWhile is_space rest @ s'" unfolding s'_def by simp
    ultimately have "s = (tok @ takeWhile is_space rest) @ s'" by simp
    then have "last s = last s'" using False by (metis last_appendR)
    with "1.prems"(2) have sp': "is_space (last s')" by simp
    have "last (split_ws s') = []"
      unfolding s'_def rest_def
      by (rule "1.IH" [OF refl refl]) (use ne False sp' rest_def s'_def in simp_all)
    with l show ?thesis by simp
  qed
qed


text \<open>The text is its tokens with a run of white space after each but the last.\<close>

lemma split_ws_separators:
  "\<exists>seps. length seps + 1 = length (split_ws s)
     \<and> (\<forall>sp\<in>set seps. sp \<noteq> [] \<and> list_all is_space sp)
     \<and> s = concat (map (\<lambda>(t, sp). t @ sp) (zip (split_ws s) (seps @ [[]])))"
proof (induction s rule: split_ws.induct)
  case (1 s)
  define rest where "rest = dropWhile (\<lambda>c. \<not> is_space c) s"
  define s' where "s' = dropWhile is_space rest"
  define tok where "tok = takeWhile (\<lambda>c. \<not> is_space c) s"
  define sep where "sep = takeWhile is_space rest"
  show ?case
  proof (cases "rest = []")
    case True
    then have sp: "split_ws s = [s]" unfolding rest_def by (rule split_ws_last)
    have "length [] + 1 = length (split_ws s)
       \<and> (\<forall>sp\<in>set ([] :: jstring list). sp \<noteq> [] \<and> list_all is_space sp)
       \<and> s = concat (map (\<lambda>(t, sp). t @ sp) (zip (split_ws s) ([] @ [[]])))"
      unfolding sp by simp
    then show ?thesis by blast
  next
    case False
    then have sp: "split_ws s = tok # split_ws s'"
      unfolding rest_def s'_def tok_def by (rule split_ws_step)
    from False have "is_space (hd rest)"
      unfolding rest_def using hd_dropWhile [of "\<lambda>c. \<not> is_space c" s] by blast
    with False have sep_ne: "sep \<noteq> []"
      unfolding sep_def by (cases rest) auto
    have sep_sp: "list_all is_space sep"
      unfolding sep_def list_all_iff by (auto dest: set_takeWhileD)
    have s: "s = tok @ sep @ s'"
      unfolding tok_def sep_def s'_def rest_def by simp
    from "1.IH" [OF refl refl] False obtain seps where
      len: "length seps + 1 = length (split_ws s')"
      and all: "\<forall>sp\<in>set seps. sp \<noteq> [] \<and> list_all is_space sp"
      and eq: "s' = concat (map (\<lambda>(t, sp). t @ sp) (zip (split_ws s') (seps @ [[]])))"
      unfolding rest_def s'_def by blast
    have "length (sep # seps) + 1 = length (split_ws s)"
      unfolding sp using len by simp
    moreover have "\<forall>sp\<in>set (sep # seps). sp \<noteq> [] \<and> list_all is_space sp"
      using all sep_ne sep_sp by simp
    moreover have "s = concat (map (\<lambda>(t, sp). t @ sp) (zip (split_ws s) ((sep # seps) @ [[]])))"
    proof -
      have "concat (map (\<lambda>(t, sp). t @ sp) (zip (split_ws s) ((sep # seps) @ [[]])))
          = tok @ sep @ concat (map (\<lambda>(t, sp). t @ sp) (zip (split_ws s') (seps @ [[]])))"
        unfolding sp by simp
      also have "\<dots> = tok @ sep @ s'" using eq by (simp only:)
      finally show ?thesis using s by (simp only:)
    qed
    ultimately show ?thesis by blast
  qed
qed

section \<open>The claims\<close>




text \<open>
  C2. \<open>lyricize\<close> resolves the tokens of the text in their order, one record for each:
  when it returns, the result has as many records as there are tokens and the record
  at each position is the one of the token at that position; when it raises, some
  token raises. The tokens are the pieces of the text between its runs of white space:
  the text is its tokens with a run of white space after each but the last, there is
  at least one token, none contains white space, together they are the text without
  its white space, and only the first and the last can be empty, the first after
  leading and the last after trailing white space. White space is a code unit of the
  class \<open>\s\<close>: tab, line feed, vertical tab, form feed, carriage return, space, no-break
  space, the other space separators, the line and paragraph separators and the byte
  order mark. An empty token gives the record without syllables, with empty hyphenated
  form, without stresses and not known.
\<close>

theorem one_record_per_token:
  "(case lyricize env d lyrics of
      Inl e \<Rightarrow> \<exists>t\<in>set (split_ws lyrics). lyricize_word env d t = Inl e
    | Inr rs \<Rightarrow>
        length rs = length (split_ws lyrics)
        \<and> (\<forall>i<length rs. lyricize_word env d (split_ws lyrics ! i) = Inr (rs ! i)))
   \<and> lyricize_word env d []
       = Inr \<lparr>syllables = Some [], hyphenated = [], stresses = Some [], isKnown = False\<rparr>
   \<and> (lyrics \<noteq> [] \<and> is_space (hd lyrics) \<longrightarrow> hd (split_ws lyrics) = [])
   \<and> (lyrics \<noteq> [] \<and> is_space (last lyrics) \<longrightarrow> last (split_ws lyrics) = [])
   \<and> split_ws lyrics \<noteq> []
   \<and> (\<forall>i. 0 < i \<and> Suc i < length (split_ws lyrics) \<longrightarrow> split_ws lyrics ! i \<noteq> [])
   \<and> (\<forall>t\<in>set (split_ws lyrics). \<forall>c\<in>set t. \<not> is_space c)
   \<and> concat (split_ws lyrics) = filter (\<lambda>c. \<not> is_space c) lyrics
   \<and> (\<exists>seps. length seps + 1 = length (split_ws lyrics)
         \<and> (\<forall>sp\<in>set seps. sp \<noteq> [] \<and> list_all is_space sp)
         \<and> lyrics = concat (map (\<lambda>(t, sp). t @ sp) (zip (split_ws lyrics) (seps @ [[]]))))
   \<and> (is_space c \<longleftrightarrow>
        c \<in> {0x0009, 0x000A, 0x000B, 0x000C, 0x000D, 0x0020, 0x00A0, 0x1680,
             0x2000, 0x2001, 0x2002, 0x2003, 0x2004, 0x2005, 0x2006, 0x2007, 0x2008, 0x2009,
             0x200A, 0x2028, 0x2029, 0x202F, 0x205F, 0x3000, 0xFEFF})"
proof -
  have res: "case lyricize env d lyrics of
      Inl e \<Rightarrow> \<exists>t\<in>set (split_ws lyrics). lyricize_word env d t = Inl e
    | Inr rs \<Rightarrow>
        length rs = length (split_ws lyrics)
        \<and> (\<forall>i<length rs. lyricize_word env d (split_ws lyrics ! i) = Inr (rs ! i))"
  proof (cases "lyricize env d lyrics")
    case (Inl e)
    then have "\<exists>t\<in>set (split_ws lyrics). lyricize_word env d t = Inl e"
      unfolding lyricize_def by (rule try_map_Inl)
    with Inl show ?thesis by simp
  next
    case (Inr rs)
    then have "length rs = length (split_ws lyrics)
        \<and> (\<forall>i<length (split_ws lyrics).
              lyricize_word env d (split_ws lyrics ! i) = Inr (rs ! i))"
      unfolding lyricize_def by (rule try_map_nth)
    with Inr show ?thesis by simp
  qed
  have e: "lyricize_word env d []
       = Inr \<lparr>syllables = Some [], hyphenated = [], stresses = Some [], isKnown = False\<rparr>"
    by (simp add: lyricize_word_def typed_def)
  have w: "is_space c \<longleftrightarrow>
        c \<in> {0x0009, 0x000A, 0x000B, 0x000C, 0x000D, 0x0020, 0x00A0, 0x1680,
             0x2000, 0x2001, 0x2002, 0x2003, 0x2004, 0x2005, 0x2006, 0x2007, 0x2008, 0x2009,
             0x200A, 0x2028, 0x2029, 0x202F, 0x205F, 0x3000, 0xFEFF}"
    by (simp only: is_space_def set_simps)
  from res e w split_ws_leading [of lyrics] split_ws_trailing [of lyrics]
    split_ws_not_Nil [of lyrics] split_ws_middle_nonempty [of _ lyrics]
    split_ws_no_space [of _ lyrics] concat_split_ws [of lyrics] split_ws_separators [of lyrics]
  show ?thesis by blast
qed

theorem one_record_per_token_witness:
  "lyricize ascii_builtins sample_dictionary (js ''  hello  '')
     = Inr [typed \<lparr>syllables = [], hyphenated = [], stresses = [], isKnown = False\<rparr>,
            typed \<lparr>syllables = [js ''hel'', js ''lo''], hyphenated = js ''hel-lo'',
                   stresses = [0, 2], isKnown = True\<rparr>,
            typed \<lparr>syllables = [], hyphenated = [], stresses = [], isKnown = False\<rparr>]
   \<and> split_ws (js ''  hello  '') = [[], js ''hello'', []]
   \<and> 3 = length (split_ws (js ''  hello  ''))
   \<and> js ''  hello  '' \<noteq> [] \<and> is_space (hd (js ''  hello  ''))
   \<and> is_space (last (js ''  hello  ''))
   \<and> hd (split_ws (js ''  hello  '')) = [] \<and> last (split_ws (js ''  hello  '')) = []
   \<and> split_ws (js ''hello'' @ [0x00A0] @ js ''song'') = [js ''hello'', js ''song'']
   \<and> split_ws (js ''hello'' @ [0x0009, 0x000A, 0x3000] @ js ''song'')
       = [js ''hello'', js ''song'']
   \<and> lyricize ascii_builtins sample_dictionary (js ''hello'' @ [0x00A0] @ js ''song'')
       = Inr [typed \<lparr>syllables = [js ''hel'', js ''lo''], hyphenated = js ''hel-lo'',
                     stresses = [0, 2], isKnown = True\<rparr>,
              typed \<lparr>syllables = [js ''song''], hyphenated = js ''song'',
                     stresses = [0], isKnown = True\<rparr>]"
proof -
  let ?env = ascii_builtins
  let ?rs = "[typed \<lparr>syllables = [], hyphenated = [], stresses = [], isKnown = False\<rparr>,
            typed \<lparr>syllables = [js ''hel'', js ''lo''], hyphenated = js ''hel-lo'',
                   stresses = [0, 2], isKnown = True\<rparr>,
            typed \<lparr>syllables = [], hyphenated = [], stresses = [], isKnown = False\<rparr>]"
  have L: "lyricize ?env sample_dictionary (js ''  hello  '') = Inr ?rs" by code_simp
  have S: "split_ws (js ''  hello  '') = [[], js ''hello'', []]" by code_simp
  have 1: "js ''  hello  '' \<noteq> []" by code_simp
  have 2: "is_space (hd (js ''  hello  ''))" by code_simp
  have 3: "is_space (last (js ''  hello  ''))" by code_simp
  note t = one_record_per_token [where env = ?env and d = sample_dictionary
      and lyrics = "js ''  hello  ''"]
  from t have "case lyricize ?env sample_dictionary (js ''  hello  '') of
      Inl e \<Rightarrow> \<exists>t\<in>set (split_ws (js ''  hello  '')). lyricize_word ?env sample_dictionary t = Inl e
    | Inr rs \<Rightarrow>
        length rs = length (split_ws (js ''  hello  ''))
        \<and> (\<forall>i<length rs.
              lyricize_word ?env sample_dictionary (split_ws (js ''  hello  '') ! i)
                = Inr (rs ! i))"
    by (rule conjunct1)
  then have "length ?rs = length (split_ws (js ''  hello  ''))"
    unfolding L sum.case by (rule conjunct1)
  then have 4: "3 = length (split_ws (js ''  hello  ''))" by simp
  from t 1 2 have 5: "hd (split_ws (js ''  hello  '')) = []" by blast
  from t 1 3 have 6: "last (split_ws (js ''  hello  '')) = []" by blast
  have 7: "split_ws (js ''hello'' @ [0x00A0] @ js ''song'') = [js ''hello'', js ''song'']"
    by code_simp
  have 8: "split_ws (js ''hello'' @ [0x0009, 0x000A, 0x3000] @ js ''song'')
       = [js ''hello'', js ''song'']" by code_simp
  have 9: "lyricize ?env sample_dictionary (js ''hello'' @ [0x00A0] @ js ''song'')
       = Inr [typed \<lparr>syllables = [js ''hel'', js ''lo''], hyphenated = js ''hel-lo'',
                     stresses = [0, 2], isKnown = True\<rparr>,
              typed \<lparr>syllables = [js ''song''], hyphenated = js ''song'',
                     stresses = [0], isKnown = True\<rparr>]" by code_simp
  show ?thesis
    by (intro conjI) (rule L S 1 2 3 4 5 6 7 8 9)+
qed













text \<open>
  C7. For a token whose core contains a hyphen, the core is split at its hyphens and
  the empty pieces are dropped, so that the parts are not empty, contain no hyphen and
  together are the core without its hyphens. Each part is resolved by \<open>processWord\<close>
  with empty prefix and suffix; an exception of a part is the exception of the token.
  Otherwise the syllables and the stresses of the result are the concatenations of the
  syllables and stresses of the parts' records in the order of the parts, as \<open>flatMap\<close>
  concatenates them: the elements of a list, and the one element \<open>undefined\<close> for a
  record without the list. The flag is the conjunction of the flags of the parts.
\<close>

theorem compound_concatenates_parts:
  assumes "hyphen \<in> set (token_core tok)"
  shows "hyphen_parts (token_core tok)
           = filter (\<lambda>part. part \<noteq> []) (split_char hyphen (token_core tok))
    \<and> join [hyphen] (split_char hyphen (token_core tok)) = token_core tok
    \<and> (\<forall>part\<in>set (hyphen_parts (token_core tok)). part \<noteq> [] \<and> hyphen \<notin> set part)
    \<and> concat (hyphen_parts (token_core tok)) = filter (\<lambda>x. x \<noteq> hyphen) (token_core tok)
    \<and> (case lyricize_word env d tok of
          Inl e \<Rightarrow>
            \<exists>part\<in>set (hyphen_parts (token_core tok)). processWord env d part [] [] = Inl e
        | Inr r \<Rightarrow>
            \<exists>rs. length rs = length (hyphen_parts (token_core tok))
               \<and> (\<forall>i<length rs.
                    processWord env d (hyphen_parts (token_core tok) ! i) [] [] = Inr (rs ! i))
               \<and> syllables r = Some (concat (map (\<lambda>res. flattened (syllables res)) rs))
               \<and> stresses r = Some (concat (map (\<lambda>res. flattened (stresses res)) rs))
               \<and> isKnown r = list_all isKnown rs)"
proof -
  let ?ps = "hyphen_parts (token_core tok)"
  let ?f = "\<lambda>part. processWord env d part [] []"
  from assms have cne: "token_core tok \<noteq> []" by auto
  then have tok: "tok \<noteq> []" by (auto simp: token_core_def)
  have lw: "lyricize_word env d tok
        = (case try_map ?f ?ps of
             Inl e \<Rightarrow> Inl e
           | Inr partResults \<Rightarrow>
               Inr \<lparr>syllables = Some (concat (map (\<lambda>res. flattened (syllables res)) partResults)),
                    hyphenated =
                      token_prefix tok
                      @ preserveCase env tok (join (js ''-'') (map hyphenated partResults))
                          (token_core tok)
                      @ token_suffix tok,
                    stresses = Some (concat (map (\<lambda>res. flattened (stresses res)) partResults)),
                    isKnown = list_all isKnown partResults\<rparr>)"
    using assms cne tok by (simp add: lyricize_word_def Let_def)
  have res: "case lyricize_word env d tok of
          Inl e \<Rightarrow> \<exists>part\<in>set ?ps. ?f part = Inl e
        | Inr r \<Rightarrow>
            \<exists>rs. length rs = length ?ps
               \<and> (\<forall>i<length rs. ?f (?ps ! i) = Inr (rs ! i))
               \<and> syllables r = Some (concat (map (\<lambda>res. flattened (syllables res)) rs))
               \<and> stresses r = Some (concat (map (\<lambda>res. flattened (stresses res)) rs))
               \<and> isKnown r = list_all isKnown rs"
  proof (cases "try_map ?f ?ps")
    case (Inl e)
    then have "\<exists>part\<in>set ?ps. ?f part = Inl e" by (rule try_map_Inl)
    with Inl lw show ?thesis by simp
  next
    case (Inr rs)
    then have "length rs = length ?ps \<and> (\<forall>i<length ?ps. ?f (?ps ! i) = Inr (rs ! i))"
      by (rule try_map_nth)
    then have "length rs = length ?ps \<and> (\<forall>i<length rs. ?f (?ps ! i) = Inr (rs ! i))"
      by simp
    with Inr lw show ?thesis by (simp del: length_map) blast
  qed
  have 1: "?ps = filter (\<lambda>part. part \<noteq> []) (split_char hyphen (token_core tok))"
    by (simp add: hyphen_parts_def)
  have 2: "join [hyphen] (split_char hyphen (token_core tok)) = token_core tok"
    by (rule join_split_char)
  from 1 2 hyphen_parts_spec [of "token_core tok"] res show ?thesis by blast
qed

theorem compound_concatenates_parts_witness:
  "hyphen \<in> set (token_core (js ''life-renewing''))
   \<and> hyphen_parts (token_core (js ''life-renewing'')) = [js ''life'', js ''renewing'']
   \<and> lyricize_word ascii_builtins sample_dictionary (js ''life-renewing'')
       = Inr (typed \<lparr>syllables = [js ''life'', js ''re'', js ''new'', js ''ing''],
                     hyphenated = js ''life-re-new-ing'',
                     stresses = [0, 0, 2, 0], isKnown = True\<rparr>)
   \<and> concat (hyphen_parts (token_core (js ''life-renewing''))) = js ''liferenewing''
   \<and> hyphen_parts (token_core (js ''pre--post'')) = [js ''pre'', js ''post'']
   \<and> lyricize_word ascii_builtins sample_dictionary (js ''pre--post'')
       = Inr (typed \<lparr>syllables = [js ''pre'', js ''post''], hyphenated = js ''pre-post'',
                     stresses = [0, 0], isKnown = True\<rparr>)
   \<and> lyricize_word ascii_builtins sample_dictionary (js ''pre-constructor'')
       = Inr \<lparr>syllables = Some [Some (js ''pre''), None], hyphenated = js ''pre-undefined'',
              stresses = Some [Some 0, None], isKnown = True\<rparr>"
proof -
  let ?env = ascii_builtins
  have 1: "hyphen \<in> set (token_core (js ''life-renewing''))" by code_simp
  have 2: "hyphen_parts (token_core (js ''life-renewing'')) = [js ''life'', js ''renewing'']"
    by code_simp
  have 3: "lyricize_word ?env sample_dictionary (js ''life-renewing'')
       = Inr (typed \<lparr>syllables = [js ''life'', js ''re'', js ''new'', js ''ing''],
                     hyphenated = js ''life-re-new-ing'',
                     stresses = [0, 0, 2, 0], isKnown = True\<rparr>)" by code_simp
  have 4: "hyphen_parts (token_core (js ''pre--post'')) = [js ''pre'', js ''post'']" by code_simp
  have 5: "lyricize_word ?env sample_dictionary (js ''pre--post'')
       = Inr (typed \<lparr>syllables = [js ''pre'', js ''post''], hyphenated = js ''pre-post'',
                     stresses = [0, 0], isKnown = True\<rparr>)" by code_simp
  have 6: "filter (\<lambda>x. x \<noteq> hyphen) (token_core (js ''life-renewing'')) = js ''liferenewing''"
    by code_simp
  have 8: "lyricize_word ?env sample_dictionary (js ''pre-constructor'')
       = Inr \<lparr>syllables = Some [Some (js ''pre''), None], hyphenated = js ''pre-undefined'',
              stresses = Some [Some 0, None], isKnown = True\<rparr>" by code_simp
  note t = compound_concatenates_parts [OF 1, of ?env sample_dictionary]
  from t have "concat (hyphen_parts (token_core (js ''life-renewing'')))
      = filter (\<lambda>x. x \<noteq> hyphen) (token_core (js ''life-renewing''))" by blast
  then have 7: "concat (hyphen_parts (token_core (js ''life-renewing''))) = js ''liferenewing''"
    by (simp only: 6)
  show ?thesis
    by (intro conjI) (rule 1 2 3 4 5 7 8)+
qed

text \<open>
  C8 (as amended). For every token whose core is not empty, the hyphenated output is
  the prefix, then the case-reconciled hyphenation of the core, then the suffix. The
  prefix and the suffix are the longest leading and trailing runs of characters that
  are not letters, and the core is the token without the characters that are neither
  letter nor hyphen. For a core without hyphen the middle is the hyphenated form of
  the core resolved without decoration; for a core with a hyphen it is the joined
  hyphenations of the parts, reconciled against the token.
\<close>

theorem hyphenated_between_prefix_and_suffix:
  assumes "token_core tok \<noteq> []" and "lyricize_word env d tok = Inr r"
  shows "(if hyphen \<in> set (token_core tok)
          then \<exists>rs. try_map (\<lambda>part. processWord env d part [] []) (hyphen_parts (token_core tok))
                       = Inr rs
                 \<and> hyphenated r
                     = token_prefix tok
                       @ preserveCase env tok (join (js ''-'') (map hyphenated rs))
                           (token_core tok)
                       @ token_suffix tok
          else \<exists>r0. processWord env d (token_core tok) [] [] = Inr r0
                 \<and> hyphenated r = token_prefix tok @ hyphenated r0 @ token_suffix tok)
    \<and> (\<forall>c\<in>set (token_prefix tok). \<not> is_letter c)
    \<and> (\<exists>rest. tok = token_prefix tok @ rest \<and> (rest = [] \<or> is_letter (hd rest)))
    \<and> (\<forall>c\<in>set (token_suffix tok). \<not> is_letter c)
    \<and> (\<exists>front. tok = front @ token_suffix tok \<and> (front = [] \<or> is_letter (last front)))
    \<and> token_core tok = filter (\<lambda>c. is_letter c \<or> c = hyphen) tok"
proof -
  from assms(1) have tok: "tok \<noteq> []" by (auto simp: token_core_def)
  have main: "if hyphen \<in> set (token_core tok)
          then \<exists>rs. try_map (\<lambda>part. processWord env d part [] []) (hyphen_parts (token_core tok))
                       = Inr rs
                 \<and> hyphenated r
                     = token_prefix tok
                       @ preserveCase env tok (join (js ''-'') (map hyphenated rs))
                           (token_core tok)
                       @ token_suffix tok
          else \<exists>r0. processWord env d (token_core tok) [] [] = Inr r0
                 \<and> hyphenated r = token_prefix tok @ hyphenated r0 @ token_suffix tok"
  proof (cases "hyphen \<in> set (token_core tok)")
    case True
    with assms tok show ?thesis
      by (auto simp: lyricize_word_def Let_def split: sum.splits)
  next
    case False
    with assms tok
    have "processWord env d (token_core tok) (token_prefix tok) (token_suffix tok) = Inr r"
      by (simp add: lyricize_word_def Let_def)
    with assms(1) obtain r0 where "processWord env d (token_core tok) [] [] = Inr r0"
      and "hyphenated r = token_prefix tok @ hyphenated r0 @ token_suffix tok"
      using processWord_wrap by blast
    with False show ?thesis by simp
  qed
  have core: "token_core tok = filter (\<lambda>c. is_letter c \<or> c = hyphen) tok"
    by (simp add: token_core_def)
  from main token_prefix_maximal [of tok] token_suffix_maximal [of tok] core
  show ?thesis by blast
qed

theorem hyphenated_between_prefix_and_suffix_witness:
  "token_core (js ''123hello456'') = js ''hello''
   \<and> token_prefix (js ''123hello456'') = js ''123''
   \<and> token_suffix (js ''123hello456'') = js ''456''
   \<and> lyricize_word ascii_builtins sample_dictionary (js ''123hello456'')
       = Inr (typed \<lparr>syllables = [js ''hel'', js ''lo''], hyphenated = js ''123hel-lo456'',
                     stresses = [0, 2], isKnown = True\<rparr>)
   \<and> processWord ascii_builtins sample_dictionary (token_core (js ''123hello456'')) [] []
       = Inr (typed \<lparr>syllables = [js ''hel'', js ''lo''], hyphenated = js ''hel-lo'',
                     stresses = [0, 2], isKnown = True\<rparr>)
   \<and> (\<exists>r0. processWord ascii_builtins sample_dictionary (token_core (js ''123hello456'')) [] []
             = Inr r0
         \<and> hyphenated (typed \<lparr>syllables = [js ''hel'', js ''lo''],
              hyphenated = js ''123hel-lo456'', stresses = [0, 2], isKnown = True\<rparr>)
           = token_prefix (js ''123hello456'') @ hyphenated r0
             @ token_suffix (js ''123hello456''))
   \<and> map hyphenated (projr (lyricize ascii_builtins sample_dictionary (js ''hello! 'hello'')))
       = [js ''hel-lo!'', js '''hel-lo'']"
proof -
  let ?env = ascii_builtins
  have c: "token_core (js ''123hello456'') = js ''hello''" by code_simp
  have p: "token_prefix (js ''123hello456'') = js ''123''" by code_simp
  have s: "token_suffix (js ''123hello456'') = js ''456''" by code_simp
  have 1: "token_core (js ''123hello456'') \<noteq> []" by code_simp
  have 2: "lyricize_word ?env sample_dictionary (js ''123hello456'')
       = Inr (typed \<lparr>syllables = [js ''hel'', js ''lo''], hyphenated = js ''123hel-lo456'',
                     stresses = [0, 2], isKnown = True\<rparr>)" by code_simp
  have 3: "map hyphenated (projr (lyricize ?env sample_dictionary (js ''hello! 'hello'')))
       = [js ''hel-lo!'', js '''hel-lo'']" by code_simp
  have 4: "hyphen \<notin> set (token_core (js ''123hello456''))" by code_simp
  have 5: "processWord ?env sample_dictionary (token_core (js ''123hello456'')) [] []
       = Inr (typed \<lparr>syllables = [js ''hel'', js ''lo''], hyphenated = js ''hel-lo'',
                     stresses = [0, 2], isKnown = True\<rparr>)" by code_simp
  note t = hyphenated_between_prefix_and_suffix [OF 1 2, THEN conjunct1]
  from t 4 have 6: "\<exists>r0. processWord ?env sample_dictionary (token_core (js ''123hello456'')) [] []
             = Inr r0
         \<and> hyphenated (typed \<lparr>syllables = [js ''hel'', js ''lo''],
              hyphenated = js ''123hel-lo456'', stresses = [0, 2], isKnown = True\<rparr>)
           = token_prefix (js ''123hello456'') @ hyphenated r0
             @ token_suffix (js ''123hello456'')"
    by (simp only: if_False)
  show ?thesis
    by (intro conjI) (rule c p s 2 3 5 6)+
qed

text \<open>
  C8 as stated fails on a token without letter and hyphen: line 29 returns the token
  itself as hyphenated form, which is shorter than prefix and suffix together.
\<close>

theorem hyphenated_between_prefix_and_suffix_counterexample:
  "lyricize_word ascii_builtins sample_dictionary (js ''123'')
     = Inr (typed \<lparr>syllables = [js ''123''], hyphenated = js ''123'', stresses = [0],
                   isKnown = False\<rparr>)
   \<and> token_prefix (js ''123'') = js ''123'' \<and> token_suffix (js ''123'') = js ''123''
   \<and> length (js ''123'') < length (token_prefix (js ''123'') @ token_suffix (js ''123''))"
  by code_simp

text \<open>
  C9. \<open>preserveCase\<close> returns the hyphenated string unchanged unless the original in
  lower case equals the clean word. When it does, an original equal to its own upper
  case gives the whole string in upper case; otherwise an original equal to its
  lower case capitalized gives the string with its first code unit in upper case;
  otherwise the string is unchanged. The upper-case test comes first and one of the
  three results is returned. Upper and lower case are those of the platform, which on
  ASCII strings map the letters a to z and A to Z and nothing else. A word found by
  direct lookup resolves to its entry with the hyphenated form reconciled in this way,
  so on every platform HELLO gives HEL-LO, Hello gives Hel-lo and hello gives hel-lo.
\<close>

theorem preserveCase_rule:
  "(toLowerCase env original \<noteq> cleanOriginal \<longrightarrow>
        preserveCase env original h cleanOriginal = h)
   \<and> (toLowerCase env original = cleanOriginal \<longrightarrow>
        preserveCase env original h cleanOriginal
          = (if original = toUpperCase env original then toUpperCase env h
             else if original = capitalize env (toLowerCase env original) then capitalize env h
             else h))
   \<and> preserveCase env original h cleanOriginal \<in> {h, toUpperCase env h, capitalize env h}
   \<and> capitalize env h = toUpperCase env (take 1 h) @ drop 1 h
   \<and> toUpperCase env h = (if list_all is_ascii h then map upper_ascii h else upper_of env h)
   \<and> toLowerCase env h = (if list_all is_ascii h then map lower_ascii h else lower_of env h)
   \<and> (toLowerCase env original \<noteq> [] \<and> d (toLowerCase env original) = Some e \<longrightarrow>
        processWord env d original p s
          = Inr (typed (e\<lparr>hyphenated :=
                     p @ (if original = toUpperCase env original
                            then toUpperCase env (hyphenated e)
                          else if original = capitalize env (toLowerCase env original)
                            then capitalize env (hyphenated e)
                          else hyphenated e) @ s,
                   isKnown := True\<rparr>)))
   \<and> lyricize env sample_dictionary (js ''HELLO Hello hello'')
       = Inr [typed \<lparr>syllables = [js ''hel'', js ''lo''], hyphenated = js ''HEL-LO'',
                     stresses = [0, 2], isKnown = True\<rparr>,
              typed \<lparr>syllables = [js ''hel'', js ''lo''], hyphenated = js ''Hel-lo'',
                     stresses = [0, 2], isKnown = True\<rparr>,
              typed \<lparr>syllables = [js ''hel'', js ''lo''], hyphenated = js ''hel-lo'',
                     stresses = [0, 2], isKnown = True\<rparr>]"
proof (intro conjI impI)
  assume a: "toLowerCase env original \<noteq> [] \<and> d (toLowerCase env original) = Some e"
  then have "data_get d (toLowerCase env original) = Some (Entry e)"
    by (simp add: data_get_entry)
  with a show "processWord env d original p s
          = Inr (typed (e\<lparr>hyphenated :=
                     p @ (if original = toUpperCase env original
                            then toUpperCase env (hyphenated e)
                          else if original = capitalize env (toLowerCase env original)
                            then capitalize env (hyphenated e)
                          else hyphenated e) @ s,
                   isKnown := True\<rparr>))"
    by (simp add: processWord_def preserveCase_def Let_def)
next
  show "lyricize env sample_dictionary (js ''HELLO Hello hello'')
       = Inr [typed \<lparr>syllables = [js ''hel'', js ''lo''], hyphenated = js ''HEL-LO'',
                     stresses = [0, 2], isKnown = True\<rparr>,
              typed \<lparr>syllables = [js ''hel'', js ''lo''], hyphenated = js ''Hel-lo'',
                     stresses = [0, 2], isKnown = True\<rparr>,
              typed \<lparr>syllables = [js ''hel'', js ''lo''], hyphenated = js ''hel-lo'',
                     stresses = [0, 2], isKnown = True\<rparr>]"
    by (rule hello_three_cases)
next
  show "capitalize env h = toUpperCase env (take 1 h) @ drop 1 h"
    by (simp add: capitalize_def)
next
  show "toUpperCase env h = (if list_all is_ascii h then map upper_ascii h else upper_of env h)"
    by (simp add: toUpperCase_def)
next
  show "toLowerCase env h = (if list_all is_ascii h then map lower_ascii h else lower_of env h)"
    by (simp add: toLowerCase_def)
qed (simp_all add: preserveCase_def Let_def)

theorem preserveCase_rule_witness:
  "toLowerCase ascii_builtins (js ''HELLO'') = js ''hello''
   \<and> js ''HELLO'' = toUpperCase ascii_builtins (js ''HELLO'')
   \<and> toLowerCase ascii_builtins (js ''HELLO'') \<noteq> []
   \<and> sample_dictionary (toLowerCase ascii_builtins (js ''HELLO''))
       = Some (entry [js ''hel'', js ''lo''] [0, 2])
   \<and> preserveCase ascii_builtins (js ''HELLO'') (js ''hel-lo'') (js ''hello'') = js ''HEL-LO''
   \<and> processWord ascii_builtins sample_dictionary (js ''HELLO'') [] []
       = Inr (typed \<lparr>syllables = [js ''hel'', js ''lo''], hyphenated = js ''HEL-LO'',
                     stresses = [0, 2], isKnown = True\<rparr>)
   \<and> preserveCase ascii_builtins (js ''Hello'') (js ''hel-lo'') (js ''hello'') = js ''Hel-lo''
   \<and> preserveCase ascii_builtins (js ''hello'') (js ''hel-lo'') (js ''hello'') = js ''hel-lo''
   \<and> preserveCase ascii_builtins (js ''HELLO'') (js ''hel-lo'') (js ''Hello'') = js ''hel-lo''"
proof -
  let ?env = ascii_builtins
  let ?e = "entry [js ''hel'', js ''lo''] [0, 2]"
  have l: "toLowerCase ?env (js ''HELLO'') = js ''hello''" by code_simp
  have u: "js ''HELLO'' = toUpperCase ?env (js ''HELLO'')" by code_simp
  have h: "toUpperCase ?env (js ''hel-lo'') = js ''HEL-LO''" by code_simp
  have n: "toLowerCase ?env (js ''HELLO'') \<noteq> []" by code_simp
  have 1: "sample_dictionary (toLowerCase ?env (js ''HELLO'')) = Some ?e" by code_simp
  note r = preserveCase_rule [of ?env "js ''HELLO''" "js ''hello''" "js ''hel-lo''"
      sample_dictionary ?e "[]" "[]"]
  from r l have "preserveCase ?env (js ''HELLO'') (js ''hel-lo'') (js ''hello'')
      = (if js ''HELLO'' = toUpperCase ?env (js ''HELLO'') then toUpperCase ?env (js ''hel-lo'')
         else if js ''HELLO'' = capitalize ?env (toLowerCase ?env (js ''HELLO''))
           then capitalize ?env (js ''hel-lo'')
         else js ''hel-lo'')" by blast
  then have a: "preserveCase ?env (js ''HELLO'') (js ''hel-lo'') (js ''hello'') = js ''HEL-LO''"
    using u h by (simp only: if_True simp_thms)
  have val: "typed (?e\<lparr>hyphenated :=
                     [] @ (if js ''HELLO'' = toUpperCase ?env (js ''HELLO'')
                            then toUpperCase ?env (hyphenated ?e)
                          else if js ''HELLO'' = capitalize ?env (toLowerCase ?env (js ''HELLO''))
                            then capitalize ?env (hyphenated ?e)
                          else hyphenated ?e) @ [],
                   isKnown := True\<rparr>)
      = typed \<lparr>syllables = [js ''hel'', js ''lo''], hyphenated = js ''HEL-LO'',
                     stresses = [0, 2], isKnown = True\<rparr>"
    by code_simp
  from r n 1 have "processWord ?env sample_dictionary (js ''HELLO'') [] []
      = Inr (typed (?e\<lparr>hyphenated :=
                     [] @ (if js ''HELLO'' = toUpperCase ?env (js ''HELLO'')
                            then toUpperCase ?env (hyphenated ?e)
                          else if js ''HELLO'' = capitalize ?env (toLowerCase ?env (js ''HELLO''))
                            then capitalize ?env (hyphenated ?e)
                          else hyphenated ?e) @ [],
                   isKnown := True\<rparr>))" by blast
  then have b: "processWord ?env sample_dictionary (js ''HELLO'') [] []
       = Inr (typed \<lparr>syllables = [js ''hel'', js ''lo''], hyphenated = js ''HEL-LO'',
                     stresses = [0, 2], isKnown = True\<rparr>)"
    by (simp only: val)
  have c: "preserveCase ?env (js ''Hello'') (js ''hel-lo'') (js ''hello'') = js ''Hel-lo''"
    "preserveCase ?env (js ''hello'') (js ''hel-lo'') (js ''hello'') = js ''hel-lo''"
    "preserveCase ?env (js ''HELLO'') (js ''hel-lo'') (js ''Hello'') = js ''hel-lo''"
    by code_simp+
  show ?thesis
    by (intro conjI) (rule l u n 1 a b c)+
qed

text \<open>
  C10. A token that contains a hyphen and no letter is its own prefix and its own
  suffix, and its core splits into no part at all. Its record has no syllable and no
  stress, is known (the conjunction over no part), and its hyphenated form is the token
  twice: \<open>--\<close> gives \<open>----\<close>.
\<close>

theorem letterless_hyphen_token:
  assumes "hyphen \<in> set tok" and "\<forall>c\<in>set tok. \<not> is_letter c"
  shows "token_prefix tok = tok \<and> token_suffix tok = tok
    \<and> hyphen_parts (token_core tok) = []
    \<and> lyricize_word env d tok
        = Inr \<lparr>syllables = Some [], hyphenated = tok @ tok, stresses = Some [],
               isKnown = True\<rparr>"
proof -
  from assms(1) have ne: "tok \<noteq> []" by auto
  from assms(1) have core: "hyphen \<in> set (token_core tok)"
    by (simp add: token_core_def)
  then have cne: "token_core tok \<noteq> []" by auto
  note p = token_prefix_no_letter [OF assms(2)]
  note s = token_suffix_no_letter [OF assms(2)]
  note h = hyphen_parts_no_letter [OF assms(2)]
  have "lyricize_word env d tok
        = Inr \<lparr>syllables = Some [], hyphenated = tok @ tok, stresses = Some [],
               isKnown = True\<rparr>"
    using ne core cne by (simp add: lyricize_word_def Let_def p s h preserveCase_Nil)
  with p s h show ?thesis by simp
qed

theorem letterless_hyphen_token_witness:
  "hyphen \<in> set (js ''--'') \<and> \<not> list_ex is_letter (js ''--'')
   \<and> lyricize_word ascii_builtins sample_dictionary (js ''--'')
       = Inr \<lparr>syllables = Some [], hyphenated = js ''----'', stresses = Some [],
              isKnown = True\<rparr>
   \<and> lyricize ascii_builtins sample_dictionary (js ''--'')
       = Inr [\<lparr>syllables = Some [], hyphenated = js ''----'', stresses = Some [],
               isKnown = True\<rparr>]"
proof -
  let ?env = ascii_builtins
  have 1: "hyphen \<in> set (js ''--'')" by code_simp
  have 4: "\<not> list_ex is_letter (js ''--'')" by code_simp
  then have 2: "\<forall>c\<in>set (js ''--''). \<not> is_letter c"
    by (simp only: list_ex_iff) blast
  have 3: "lyricize ?env sample_dictionary (js ''--'')
       = Inr [\<lparr>syllables = Some [], hyphenated = js ''----'', stresses = Some [],
               isKnown = True\<rparr>]"
    by code_simp
  have tt: "js ''--'' @ js ''--'' = js ''----''" by code_simp
  from letterless_hyphen_token [OF 1 2, of ?env sample_dictionary]
  have 5: "lyricize_word ?env sample_dictionary (js ''--'')
       = Inr \<lparr>syllables = Some [], hyphenated = js ''----'', stresses = Some [],
              isKnown = True\<rparr>"
    by (simp only: tt)
  show ?thesis
    by (intro conjI) (rule 1 3 4 5)+
qed

end
